theory Spec2Isabelle
  imports Main "HOL-Library.Word"
begin

unbundle bit_operations_syntax

section \<open>Errors and bytes\<close>

text \<open>
  The exceptions the fragment processor can raise: \<open>KeyError\<close> is raised by hand when no
  Segment element is found, \<open>ValueError\<close> is raised by hand for a vint longer than 8
  bytes, \<open>IndexError\<close> is what the subscript of a byte string raises out of range.
\<close>

datatype error = KeyError | ValueError | IndexError

type_synonym byte = "8 word"

text \<open>
  \<open>data[i]\<close> on a byte string, for a position \<open>i\<close> counted from the start: the
  byte as an integer in 0..255, or \<open>IndexError\<close> past the end.
\<close>

definition getitem :: "byte list \<Rightarrow> nat \<Rightarrow> error + int" where
  "getitem data i = (if i < length data then Inr (uint (data ! i)) else Inl IndexError)"

section \<open>parse\_vint\<close>

text \<open>
  The loop \<^verbatim>\<open>while size <= 8 and not (first_byte & mask): mask >>= 1; size += 1\<close>,
  returning the mask and the size it ends with (\<open>msk\<close> and \<open>sz\<close> here).
\<close>

function vint_scan :: "int \<Rightarrow> int \<Rightarrow> nat \<Rightarrow> int \<times> nat" where
  "vint_scan first_byte msk sz =
     (if sz \<le> 8 \<and> first_byte AND msk = 0
      then vint_scan first_byte (drop_bit 1 msk) (sz + 1)
      else (msk, sz))"
  by pat_completeness auto
termination
  by (relation "measure (\<lambda>(first_byte, msk, sz). 9 - sz)") auto

declare vint_scan.simps [simp del]

text \<open>
  The loop \<^verbatim>\<open>for i in range(1, size): value = (value << 8) | data[offset + i]\<close>,
  over the list of the indices still to visit; a subscript out of range ends it.
\<close>

fun vint_value :: "byte list \<Rightarrow> nat \<Rightarrow> int \<Rightarrow> nat list \<Rightarrow> error + int" where
  "vint_value data offset val [] = Inr val"
| "vint_value data offset val (i # rest) =
     (case getitem data (offset + i) of
        Inl e \<Rightarrow> Inl e
      | Inr b \<Rightarrow> vint_value data offset (push_bit 8 val OR b) rest)"

text \<open>
  \<open>parse_vint(data, offset)\<close>. The offset is a position counted from the start of the
  buffer; the processor itself only calls it with the default 0. The value is a Python
  integer, without a bound.
\<close>

definition parse_vint :: "byte list \<Rightarrow> nat \<Rightarrow> error + (int \<times> nat)" where
  "parse_vint data offset =
     (case getitem data offset of
        Inl e \<Rightarrow> Inl e
      | Inr first_byte \<Rightarrow>
          (case vint_scan first_byte 0x80 1 of
             (msk, sz) \<Rightarrow>
               if sz > 8 then Inl ValueError
               else (case vint_value data offset (first_byte AND (msk - 1)) [1..<sz] of
                       Inl e \<Rightarrow> Inl e
                     | Inr val \<Rightarrow> Inr (val, sz))))"

section \<open>extract\_simpleblock\_data\<close>

text \<open>
  The payload is the slice \<^verbatim>\<open>byte_array[size + 2 + 1:]\<close>; a slice that starts past the
  end is empty and raises nothing.
\<close>

definition extract_simpleblock_data :: "byte list \<Rightarrow> error + (int \<times> byte list)" where
  "extract_simpleblock_data byte_array =
     (case parse_vint byte_array 0 of
        Inl e \<Rightarrow> Inl e
      | Inr (track_number, sz) \<Rightarrow>
          (let payload_offset = sz + 2 + 1;
               data_payload = drop payload_offset byte_array
           in Inr (track_number, data_payload)))"

section \<open>The element tree\<close>

text \<open>
  The fragment document is built by an EBML tree builder that is not part of the sources.
  The processor reads of a node its \<open>id\<close>, the nodes that iterating it yields, its decoded
  \<open>value\<close>, its \<open>payloadOffset\<close> and its \<open>size\<close> (here \<open>eid\<close>, \<open>children\<close>,
  \<open>evalue\<close>, \<open>payloadOffset\<close>, \<open>esize\<close>). The builder's schema fixes by ID which
  nodes are containers and which are leaves; the processor iterates only nodes whose ID is
  a container's and reads \<open>value\<close> only from nodes whose ID is a leaf's, so every node of
  the model carries all of the attributes (a leaf has no children).
\<close>

datatype val = VStr string | VInt int | VBytes "byte list"

datatype element =
  Element (eid: int) (children: "element list") (evalue: val) (payloadOffset: nat) (esize: nat)

text \<open>Python's truth value of a decoded value: empty text, zero and empty bytes are false.\<close>

fun val_truthy :: "val \<Rightarrow> bool" where
  "val_truthy (VStr s) = (s \<noteq> [])"
| "val_truthy (VInt n) = (n \<noteq> 0)"
| "val_truthy (VBytes b) = (b \<noteq> [])"

text \<open>
  The search every function starts with: the first node of the document whose ID is that
  of Segment, then \<^verbatim>\<open>if not segment_element: raise KeyError(...)\<close>. The test is Python's
  truth value of the node found, which the node classes of the tree builder decide; they
  are outside the sources, so the truth value of a node is the parameter \<open>truthy\<close>.
\<close>

definition find_segment :: "element list \<Rightarrow> element option" where
  "find_segment fragment_dom = find (\<lambda>element. eid element = 0x18538067) fragment_dom"

definition get_segment :: "(element \<Rightarrow> bool) \<Rightarrow> element list \<Rightarrow> error + element" where
  "get_segment truthy fragment_dom =
     (case find_segment fragment_dom of
        None \<Rightarrow> Inl KeyError
      | Some segment_element \<Rightarrow>
          if \<not> truthy segment_element then Inl KeyError else Inr segment_element)"

section \<open>get\_fragment\_tags\<close>

text \<open>The three nested loops that gather the SimpleTag nodes, in document order.\<close>

definition simple_tag_elements :: "element \<Rightarrow> element list" where
  "simple_tag_elements segment_element =
     concat (map (\<lambda>element.
        if eid element = 0x1254C367
        then concat (map (\<lambda>tags.
               if eid tags = 0x7373
               then filter (\<lambda>tag_type. eid tag_type = 0x67C8) (children tags)
               else []) (children element))
        else []) (children segment_element))"

text \<open>
  One pass of the loop over the children of a SimpleTag; the state is
  \<open>(tag_name, tag_value)\<close>, both \<open>None\<close> at the start.
\<close>

definition tag_step :: "val option \<times> val option \<Rightarrow> element \<Rightarrow> val option \<times> val option" where
  "tag_step acc element =
     (case acc of (tag_name, tag_value) \<Rightarrow>
        if eid element = 0x45A3 then (Some (evalue element), tag_value)
        else if eid element = 0x4487 \<or> eid element = 0x4485 then (tag_name, Some (evalue element))
        else (tag_name, tag_value))"

definition tag_fields :: "element \<Rightarrow> val option \<times> val option" where
  "tag_fields simple_tag = foldl tag_step (None, None) (children simple_tag)"

text \<open>
  \<^verbatim>\<open>if tag_name: simple_tags_dict[tag_name] = tag_value\<close>. The dictionary maps a tag name
  to the tag value, which is \<open>None\<close> when the SimpleTag has no value leaf.
\<close>

definition add_tag :: "(val \<rightharpoonup> val option) \<Rightarrow> element \<Rightarrow> (val \<rightharpoonup> val option)" where
  "add_tag simple_tags_dict simple_tag =
     (case tag_fields simple_tag of
        (None, tag_value) \<Rightarrow> simple_tags_dict
      | (Some tag_name, tag_value) \<Rightarrow>
          if val_truthy tag_name then simple_tags_dict(tag_name \<mapsto> tag_value)
          else simple_tags_dict)"

definition get_fragment_tags ::
  "(element \<Rightarrow> bool) \<Rightarrow> element list \<Rightarrow> error + (val \<rightharpoonup> val option)" where
  "get_fragment_tags truthy fragment_dom =
     (case get_segment truthy fragment_dom of
        Inl e \<Rightarrow> Inl e
      | Inr segment_element \<Rightarrow>
          Inr (foldl add_tag Map.empty (simple_tag_elements segment_element)))"

section \<open>get\_simple\_block\_offset\<close>

text \<open>
  The loop over the children of Segment: the first child with the Cluster ID contributes
  the \<open>(payloadOffset, size)\<close> of its children with the SimpleBlock ID, and the
  \<^verbatim>\<open>break\<close> after it ends the loop.
\<close>

fun scan_clusters :: "element list \<Rightarrow> (nat \<times> nat) list" where
  "scan_clusters [] = []"
| "scan_clusters (element # rest) =
     (if eid element = 0x1F43B675
      then map (\<lambda>el. (payloadOffset el, esize el)) (filter (\<lambda>el. eid el = 0xA3) (children element))
      else scan_clusters rest)"

definition get_simple_block_offset ::
  "(element \<Rightarrow> bool) \<Rightarrow> element list \<Rightarrow> error + (nat \<times> nat) list" where
  "get_simple_block_offset truthy fragment_dom =
     (case get_segment truthy fragment_dom of
        Inl e \<Rightarrow> Inl e
      | Inr segment_element \<Rightarrow> Inr (scan_clusters (children segment_element)))"

section \<open>get\_audio\_tracks\<close>

text \<open>
  One pass of the loop over the children of a TrackEntry; the state is
  \<open>(track_number, track_name)\<close>, which starts as \<open>(-1, "")\<close>.
\<close>

definition track_step :: "val \<times> val \<Rightarrow> element \<Rightarrow> val \<times> val" where
  "track_step acc e =
     (case acc of (track_number, track_name) \<Rightarrow>
        if eid e = 0x536E then (track_number, evalue e)
        else if eid e = 0xD7 then (evalue e, track_name)
        else (track_number, track_name))"

definition entry_fields :: "element \<Rightarrow> val \<times> val" where
  "entry_fields el = foldl track_step (VInt (- 1), VStr []) (children el)"

text \<open>
  One pass of the loop over the children of Tracks; the state is
  \<open>(audio_from_customer_track, audio_to_customer_track)\<close>.
\<close>

definition entry_step :: "val \<times> val \<Rightarrow> element \<Rightarrow> val \<times> val" where
  "entry_step acc el =
     (case acc of (audio_from_customer_track, audio_to_customer_track) \<Rightarrow>
        if eid el = 0xAE
        then (case entry_fields el of (track_number, track_name) \<Rightarrow>
                if track_name = VStr ''AUDIO_FROM_CUSTOMER''
                then (track_number, audio_to_customer_track)
                else if track_name = VStr ''AUDIO_TO_CUSTOMER''
                then (audio_from_customer_track, track_number)
                else (audio_from_customer_track, audio_to_customer_track))
        else (audio_from_customer_track, audio_to_customer_track))"

definition tracks_step :: "val \<times> val \<Rightarrow> element \<Rightarrow> val \<times> val" where
  "tracks_step acc element =
     (if eid element = 0x1654AE6B then foldl entry_step acc (children element) else acc)"

definition scan_tracks :: "element \<Rightarrow> val \<times> val" where
  "scan_tracks segment_element = foldl tracks_step (VInt 0, VInt 0) (children segment_element)"

text \<open>
  \<open>int(...)\<close> of an accumulator. On an integer it is the identity. On text or bytes the
  Python runtime reads an integer literal or raises; the rules by which it reads one are
  not in the sources, so that reading is the parameter \<open>int_of_text\<close>.
\<close>

fun py_int :: "(val \<Rightarrow> error + int) \<Rightarrow> val \<Rightarrow> error + int" where
  "py_int int_of_text (VInt n) = Inr n"
| "py_int int_of_text (VStr s) = int_of_text (VStr s)"
| "py_int int_of_text (VBytes b) = int_of_text (VBytes b)"

definition get_audio_tracks ::
  "(element \<Rightarrow> bool) \<Rightarrow> (val \<Rightarrow> error + int) \<Rightarrow> element list \<Rightarrow> error + (int \<times> int)" where
  "get_audio_tracks truthy int_of_text fragment_dom =
     (case get_segment truthy fragment_dom of
        Inl e \<Rightarrow> Inl e
      | Inr segment_element \<Rightarrow>
          (case scan_tracks segment_element of
             (audio_from_customer_track, audio_to_customer_track) \<Rightarrow>
               if audio_from_customer_track = VInt 0 \<or> audio_to_customer_track = VInt 0
               then Inr (1, 2)
               else (case py_int int_of_text audio_from_customer_track of
                       Inl e \<Rightarrow> Inl e
                     | Inr a \<Rightarrow>
                         (case py_int int_of_text audio_to_customer_track of
                            Inl e \<Rightarrow> Inl e
                          | Inr b \<Rightarrow> Inr (a, b)))))"

section \<open>Vocabulary of the statements\<close>

text \<open>
  The \<open>n\<close>-byte big-endian writing of an integer, and the EBML vint of a value \<open>v\<close> in
  \<open>len\<close> bytes: the marker bit \<open>2 ^ (7 * len)\<close> set above the \<open>7 * len\<close> bits of the
  value. This is the encoding that the round-trip law of the decoder is stated for.
\<close>

fun be_bytes :: "nat \<Rightarrow> int \<Rightarrow> byte list" where
  "be_bytes 0 v = []"
| "be_bytes (Suc n) v = be_bytes n (v div 256) @ [word_of_int v]"

definition encode_vint :: "nat \<Rightarrow> int \<Rightarrow> byte list" where
  "encode_vint len v = be_bytes len (2 ^ (7 * len) + v)"

text \<open>The big-endian value of a run of bytes appended below an accumulator.\<close>

definition be_val :: "int \<Rightarrow> byte list \<Rightarrow> int" where
  "be_val acc bs = foldl (\<lambda>a b. push_bit 8 a OR uint b) acc bs"

text \<open>
  The TrackEntry nodes under the Tracks nodes of a Segment, in document order, and what
  the inner loop reads from one of them.
\<close>

definition track_entries :: "element \<Rightarrow> element list" where
  "track_entries segment_element =
     concat (map (\<lambda>element.
        if eid element = 0x1654AE6B then filter (\<lambda>el. eid el = 0xAE) (children element) else [])
        (children segment_element))"

definition entry_number :: "element \<Rightarrow> val" where
  "entry_number el = fst (entry_fields el)"

definition entry_name :: "element \<Rightarrow> val" where
  "entry_name el = snd (entry_fields el)"

text \<open>
  Two truth values a node class can have, for the concrete trees below: that of a class
  which defines neither \<open>__bool__\<close> nor \<open>__len__\<close> (every object is true), and that of
  a class whose \<open>__len__\<close> counts the children (a node without children is false).
\<close>

definition plain_truthy :: "element \<Rightarrow> bool" where
  "plain_truthy element = True"

definition sized_truthy :: "element \<Rightarrow> bool" where
  "sized_truthy element = (children element \<noteq> [])"

text \<open>
  A reading of integers from text, for the concrete trees: a non-empty run of the digits
  0 to 9 is read as the decimal number, anything else raises \<open>ValueError\<close>.
\<close>

fun digits_value :: "int \<Rightarrow> string \<Rightarrow> int option" where
  "digits_value acc [] = Some acc"
| "digits_value acc (c # cs) =
     (if 48 \<le> (of_char c :: nat) \<and> (of_char c :: nat) \<le> 57
      then digits_value (10 * acc + int (of_char c) - 48) cs
      else None)"

definition plain_digits :: "val \<Rightarrow> error + int" where
  "plain_digits v =
     (case v of
        VStr (c # cs) \<Rightarrow> (case digits_value 0 (c # cs) of Some n \<Rightarrow> Inr n | None \<Rightarrow> Inl ValueError)
      | _ \<Rightarrow> Inl ValueError)"

text \<open>Shorthands for the nodes of the concrete trees: a container and the three leaves.\<close>

definition Master :: "int \<Rightarrow> element list \<Rightarrow> element" where
  "Master i cs = Element i cs (VBytes []) 0 0"

definition StrLeaf :: "int \<Rightarrow> string \<Rightarrow> element" where
  "StrLeaf i s = Element i [] (VStr s) 0 0"

definition IntLeaf :: "int \<Rightarrow> int \<Rightarrow> element" where
  "IntLeaf i n = Element i [] (VInt n) 0 0"

definition BinLeaf :: "int \<Rightarrow> nat \<Rightarrow> nat \<Rightarrow> element" where
  "BinLeaf i off sz = Element i [] (VBytes []) off sz"

section \<open>The length scan of a vint\<close>

lemma drop_bit_mask_step:
  "k \<le> 8 \<Longrightarrow> 1 \<le> k \<Longrightarrow> drop_bit 1 ((2::int) ^ (8 - k)) = (if k + 1 \<le> 8 then 2 ^ (8 - (k + 1)) else 0)"
proof (cases "k = 8")
  case True
  then show ?thesis by simp
next
  case False
  assume "k \<le> 8" "1 \<le> k"
  with False have "8 - k = Suc (8 - (k + 1))" by arith
  then show ?thesis using False \<open>k \<le> 8\<close> by (simp add: drop_bit_eq_div)
qed

lemma vint_scan_props:
  "vint_scan fb msk k = (m, s) \<Longrightarrow> 1 \<le> k \<Longrightarrow> k \<le> 9 \<Longrightarrow>
   msk = (if k \<le> 8 then 2 ^ (8 - k) else 0) \<Longrightarrow>
   k \<le> s \<and> s \<le> 9 \<and> m = (if s \<le> 8 then 2 ^ (8 - s) else 0) \<and> (s \<le> 8 \<longrightarrow> bit fb (8 - s)) \<and>
   (\<forall>j. k \<le> j \<and> j < s \<longrightarrow> \<not> bit fb (8 - j))"
proof (induction fb msk k rule: vint_scan.induct)
  case (1 first_byte msk sz)
  show ?case
  proof (cases "sz \<le> 8 \<and> first_byte AND msk = 0")
    case True
    then have rec: "vint_scan first_byte (drop_bit 1 msk) (sz + 1) = (m, s)"
      using "1.prems"(1) by (simp add: vint_scan.simps [of first_byte msk sz])
    have msk: "msk = 2 ^ (8 - sz)" using True "1.prems"(4) by simp
    have nb: "\<not> bit first_byte (8 - sz)"
      using True msk by (simp add: and_exp_eq_0_iff_not_bit)
    have step: "drop_bit 1 msk = (if sz + 1 \<le> 8 then 2 ^ (8 - (sz + 1)) else 0)"
      unfolding msk using True "1.prems"(2) by (intro drop_bit_mask_step) auto
    have IH: "sz + 1 \<le> s \<and> s \<le> 9 \<and> m = (if s \<le> 8 then 2 ^ (8 - s) else 0) \<and> (s \<le> 8 \<longrightarrow> bit first_byte (8 - s)) \<and>
      (\<forall>j. sz + 1 \<le> j \<and> j < s \<longrightarrow> \<not> bit first_byte (8 - j))"
      using "1.IH" [OF True rec _ _ step] True by simp
    show ?thesis
    proof (intro conjI allI impI)
      fix j assume j: "sz \<le> j \<and> j < s"
      show "\<not> bit first_byte (8 - j)"
      proof (cases "j = sz")
        case True then show ?thesis using nb by simp
      next
        case False
        with j have "sz + 1 \<le> j \<and> j < s" by arith
        with IH show ?thesis by blast
      qed
    qed (use IH in auto)
  next
    case False
    then have "vint_scan first_byte msk sz = (msk, sz)"
      by (subst vint_scan.simps) auto
    then have res: "m = msk" "s = sz"
      using "1.prems"(1) by simp_all
    show ?thesis
    proof (cases "sz \<le> 8")
      case True
      with False have "first_byte AND msk \<noteq> 0" by simp
      moreover have "msk = 2 ^ (8 - sz)" using True "1.prems"(4) by simp
      ultimately have "bit first_byte (8 - sz)" by (simp add: and_exp_eq_0_iff_not_bit)
      then show ?thesis using res True "1.prems" by auto
    next
      case False
      then show ?thesis using res "1.prems" by auto
    qed
  qed
qed

lemma byte_zero_if_no_bits:
  fixes w :: byte
  assumes "\<forall>j. 1 \<le> j \<and> j < 9 \<longrightarrow> \<not> bit (uint w) (8 - j)"
  shows "w = 0"
proof (rule bit_eqI)
  fix n
  show "bit w n = bit (0 :: byte) n"
  proof (cases "n < 8")
    case True
    then have "1 \<le> 8 - n \<and> 8 - n < 9" by arith
    with assms have "\<not> bit (uint w) (8 - (8 - n))" by blast
    with True show ?thesis by (simp add: bit_uint_iff)
  next
    case False
    then show ?thesis by (auto dest: bit_imp_le_length)
  qed
qed

lemma vint_scan_byte:
  fixes w :: byte
  assumes "w \<noteq> 0" "vint_scan (uint w) 0x80 1 = (m, s)"
  shows "1 \<le> s \<and> s \<le> 8 \<and> m = 2 ^ (8 - s) \<and> bit w (8 - s) \<and> (\<forall>j. 1 \<le> j \<and> j < s \<longrightarrow> \<not> bit w (8 - j))"
proof -
  have P: "1 \<le> s \<and> s \<le> 9 \<and> m = (if s \<le> 8 then 2 ^ (8 - s) else 0) \<and> (s \<le> 8 \<longrightarrow> bit (uint w) (8 - s)) \<and>
   (\<forall>j. 1 \<le> j \<and> j < s \<longrightarrow> \<not> bit (uint w) (8 - j))"
    using vint_scan_props [OF assms(2)] by simp
  have "s \<le> 8"
  proof (rule ccontr)
    assume "\<not> s \<le> 8"
    with P have "s = 9" by arith
    with P have "\<forall>j. 1 \<le> j \<and> j < 9 \<longrightarrow> \<not> bit (uint w) (8 - j)" by simp
    then have "w = 0" by (rule byte_zero_if_no_bits)
    with assms(1) show False by simp
  qed
  moreover have "\<And>j. 1 \<le> j \<Longrightarrow> bit (uint w) (8 - j) = bit w (8 - j)"
    by (auto simp add: bit_uint_iff)
  ultimately show ?thesis using P by auto
qed

lemma vint_scan_zero: "vint_scan 0 0x80 1 = (0, 9)"
  by (simp add: vint_scan.simps)

section \<open>The value loop of a vint\<close>

lemma getitem_error: "getitem data i = Inl e \<Longrightarrow> e = IndexError"
  by (auto simp: getitem_def split: if_splits)

lemma vint_value_out_of_range:
  "\<exists>i\<in>set idxs. length data \<le> offset + i \<Longrightarrow> vint_value data offset acc idxs = Inl IndexError"
proof (induction idxs arbitrary: acc)
  case Nil
  then show ?case by simp
next
  case (Cons i rest)
  show ?case
  proof (cases "length data \<le> offset + i")
    case True
    then show ?thesis by (simp add: getitem_def)
  next
    case False
    with Cons.prems have "\<exists>j\<in>set rest. length data \<le> offset + j" by auto
    then have "\<And>a. vint_value data offset a rest = Inl IndexError" by (rule Cons.IH)
    with False show ?thesis by (simp add: getitem_def)
  qed
qed

lemma vint_value_in_range:
  "offset + n \<le> length data \<Longrightarrow> i \<le> n \<Longrightarrow>
   vint_value data offset acc [i..<n] = Inr (be_val acc (take (n - i) (drop (offset + i) data)))"
proof (induction "n - i" arbitrary: i acc)
  case 0
  then show ?case by (simp add: be_val_def)
next
  case (Suc d)
  then have lt: "i < n" by arith
  then have idx: "[i..<n] = i # [Suc i..<n]" by (rule upt_conv_Cons)
  from lt Suc.prems have inr: "offset + i < length data" by arith
  have d: "d = n - Suc i" using Suc.hyps(2) by arith
  have IH: "vint_value data offset (push_bit 8 acc OR uint (data ! (offset + i))) [Suc i..<n] =
     Inr (be_val (push_bit 8 acc OR uint (data ! (offset + i))) (take (n - Suc i) (drop (offset + Suc i) data)))"
    using Suc.hyps(1) [OF d Suc.prems(1)] lt by simp
  have "take (n - i) (drop (offset + i) data) =
        data ! (offset + i) # take (n - Suc i) (drop (offset + Suc i) data)"
  proof -
    have "drop (offset + i) data = data ! (offset + i) # drop (Suc (offset + i)) data"
      using inr by (simp add: Cons_nth_drop_Suc)
    moreover have "n - i = Suc (n - Suc i)" using lt by arith
    ultimately show ?thesis by simp
  qed
  then show ?case using IH inr by (simp add: idx getitem_def be_val_def)
qed

lemma parse_vint_first_byte:
  assumes "offset < length data" "vint_scan (uint (data ! offset)) 0x80 1 = (m, n)" "n \<le> 8"
  shows "parse_vint data offset =
     (if offset + n \<le> length data
      then Inr (be_val (uint (data ! offset) AND (m - 1)) (take (n - 1) (drop (offset + 1) data)), n)
      else Inl IndexError)"
proof (cases "offset + n \<le> length data")
  case True
  have "1 \<le> n" using vint_scan_props [OF assms(2)] by simp
  then have "vint_value data offset (uint (data ! offset) AND (m - 1)) [1..<n] =
     Inr (be_val (uint (data ! offset) AND (m - 1)) (take (n - 1) (drop (offset + 1) data)))"
    using vint_value_in_range [OF True, of 1] by simp
  then show ?thesis using assms True by (simp add: parse_vint_def getitem_def)
next
  case False
  have n1: "1 \<le> n" using vint_scan_props [OF assms(2)] by simp
  let ?i = "length data - offset"
  have "?i \<in> set [1..<n] \<and> length data \<le> offset + ?i" using False assms(1) by auto
  then have "\<exists>i\<in>set [1..<n]. length data \<le> offset + i" by blast
  then have "vint_value data offset (uint (data ! offset) AND (m - 1)) [1..<n] = Inl IndexError"
    by (rule vint_value_out_of_range)
  then show ?thesis using assms False by (simp add: parse_vint_def getitem_def)
qed

lemma parse_vint_zero_byte:
  "getitem data offset = Inr 0 \<Longrightarrow> parse_vint data offset = Inl ValueError"
  using vint_scan_zero by (simp add: parse_vint_def)

lemma parse_vint_size_bounds:
  assumes "parse_vint data offset = Inr (v, n)"
  shows "1 \<le> n \<and> n \<le> 8"
proof -
  from assms obtain fb where fb: "getitem data offset = Inr fb"
    by (cases "getitem data offset") (auto simp: parse_vint_def)
  obtain m s where ms: "vint_scan fb 0x80 1 = (m, s)" by (cases "vint_scan fb 0x80 1")
  from assms fb ms have "s \<le> 8 \<and> n = s"
    by (auto simp: parse_vint_def split: if_splits sum.splits)
  moreover have "1 \<le> s" using vint_scan_props [OF ms] by simp
  ultimately show ?thesis by simp
qed

lemma parse_vint_size_marker:
  assumes "parse_vint data offset = Inr (v, n)"
  shows "offset < length data \<and> data ! offset \<noteq> 0 \<and>
         (\<exists>m. vint_scan (uint (data ! offset)) 0x80 1 = (m, n))"
proof -
  have lt: "offset < length data"
    using assms by (auto simp: parse_vint_def getitem_def split: if_splits)
  then have fb: "getitem data offset = Inr (uint (data ! offset))" by (simp add: getitem_def)
  obtain m s where ms: "vint_scan (uint (data ! offset)) 0x80 1 = (m, s)"
    by (cases "vint_scan (uint (data ! offset)) 0x80 1")
  from assms fb ms have s: "s \<le> 8 \<and> n = s"
    by (auto simp: parse_vint_def split: if_splits sum.splits)
  have "data ! offset \<noteq> 0"
  proof
    assume "data ! offset = 0"
    then have "getitem data offset = Inr 0" using fb by simp
    then have "parse_vint data offset = Inl ValueError" by (rule parse_vint_zero_byte)
    with assms show False by simp
  qed
  with lt ms s show ?thesis by auto
qed

section \<open>Claims about parse\_vint and extract\_simpleblock\_data\<close>

text \<open>
  C8. A first byte 0x00 has no marker bit among its eight bits, and \<open>parse_vint\<close> raises
  \<open>ValueError\<close> (the spec's InvalidVarint) on it. For every other first byte the scan
  that starts at the mask 0x80 and shifts it right stops at a size \<open>s\<close> between 1 and 8:
  the mask is then \<open>2 ^ (8 - s)\<close>, that bit of the byte is set and every bit above it is
  clear. That size is the length \<open>parse_vint\<close> works with: when the buffer holds \<open>s\<close>
  bytes from the offset, it returns the size \<open>s\<close> with the value read from those bytes;
  and whenever it returns a size \<open>n\<close>, \<open>n\<close> is between 1 and 8 and names the highest
  set bit, \<open>8 - n\<close>, of the byte at the offset.
\<close>

theorem parse_vint_marker_bit:
  fixes w :: byte
  shows "(getitem data offset = Inr 0 \<longrightarrow> parse_vint data offset = Inl ValueError) \<and>
         (w \<noteq> 0 \<and> vint_scan (uint w) 0x80 1 = (m, s) \<longrightarrow>
            1 \<le> s \<and> s \<le> 8 \<and> m = 2 ^ (8 - s) \<and> bit w (8 - s) \<and>
            (\<forall>j. 1 \<le> j \<and> j < s \<longrightarrow> \<not> bit w (8 - j))) \<and>
         (offset1 < length data1 \<and> data1 ! offset1 \<noteq> 0 \<and>
          vint_scan (uint (data1 ! offset1)) 0x80 1 = (m1, s1) \<and> offset1 + s1 \<le> length data1 \<longrightarrow>
            parse_vint data1 offset1 =
              Inr (be_val (uint (data1 ! offset1) AND (m1 - 1))
                     (take (s1 - 1) (drop (offset1 + 1) data1)), s1)) \<and>
         (parse_vint data2 offset2 = Inr (v, n) \<longrightarrow>
            1 \<le> n \<and> n \<le> 8 \<and> offset2 < length data2 \<and> bit (data2 ! offset2) (8 - n) \<and>
            (\<forall>j. 1 \<le> j \<and> j < n \<longrightarrow> \<not> bit (data2 ! offset2) (8 - j)))"
proof (intro conjI impI)
  assume "getitem data offset = Inr 0"
  then show "parse_vint data offset = Inl ValueError" by (rule parse_vint_zero_byte)
next
  assume "w \<noteq> 0 \<and> vint_scan (uint w) 0x80 1 = (m, s)"
  then have a: "1 \<le> s \<and> s \<le> 8 \<and> m = 2 ^ (8 - s) \<and> bit w (8 - s) \<and>
      (\<forall>j. 1 \<le> j \<and> j < s \<longrightarrow> \<not> bit w (8 - j))"
    using vint_scan_byte [of w m s] by blast
  from a show "1 \<le> s" by blast
  from a show "s \<le> 8" by blast
  from a show "m = 2 ^ (8 - s)" by blast
  from a show "bit w (8 - s)" by blast
  from a show "\<forall>j. 1 \<le> j \<and> j < s \<longrightarrow> \<not> bit w (8 - j)" by blast
next
  assume h: "offset1 < length data1 \<and> data1 ! offset1 \<noteq> 0 \<and>
          vint_scan (uint (data1 ! offset1)) 0x80 1 = (m1, s1) \<and> offset1 + s1 \<le> length data1"
  then have "s1 \<le> 8" using vint_scan_byte [of "data1 ! offset1" m1 s1] by blast
  then show "parse_vint data1 offset1 =
              Inr (be_val (uint (data1 ! offset1) AND (m1 - 1))
                     (take (s1 - 1) (drop (offset1 + 1) data1)), s1)"
    using parse_vint_first_byte [of offset1 data1 m1 s1] h by simp
next
  assume r: "parse_vint data2 offset2 = Inr (v, n)"
  from parse_vint_size_marker [OF r] obtain m' where
    p: "offset2 < length data2" "data2 ! offset2 \<noteq> 0"
       "vint_scan (uint (data2 ! offset2)) 0x80 1 = (m', n)" by blast
  have b: "1 \<le> n \<and> n \<le> 8 \<and> m' = 2 ^ (8 - n) \<and> bit (data2 ! offset2) (8 - n) \<and>
      (\<forall>j. 1 \<le> j \<and> j < n \<longrightarrow> \<not> bit (data2 ! offset2) (8 - j))"
    using vint_scan_byte [OF p(2,3)] .
  from b show "1 \<le> n" by blast
  from b show "n \<le> 8" by blast
  from p show "offset2 < length data2" by blast
  from b show "bit (data2 ! offset2) (8 - n)" by blast
  from b show "\<forall>j. 1 \<le> j \<and> j < n \<longrightarrow> \<not> bit (data2 ! offset2) (8 - j)" by blast
qed

theorem parse_vint_marker_bit_witness:
  "getitem [0, 7] 0 = Inr 0 \<and> parse_vint [0, 7] 0 = Inl ValueError \<and>
   (0x25 :: byte) \<noteq> 0 \<and> vint_scan (uint (0x25 :: byte)) 0x80 1 = (0x20, 3) \<and>
   bit (0x25 :: byte) 5 \<and> \<not> bit (0x25 :: byte) 7 \<and> \<not> bit (0x25 :: byte) 6 \<and>
   vint_scan (uint ([0x21, 0x23, 0x45 :: byte] ! 0)) 0x80 1 = (0x20, 3) \<and>
   parse_vint [0x21, 0x23, 0x45] 0 = Inr (0x12345, 3) \<and>
   parse_vint [0x40, 0x05] 0 = Inr (5, 2) \<and>
   bit ([0x40, 0x05 :: byte] ! 0) 6 \<and> \<not> bit ([0x40, 0x05 :: byte] ! 0) 7"
proof -
  have h1: "getitem [0, 7] 0 = Inr 0" by (simp add: getitem_def)
  have h2: "vint_scan (uint (0x25 :: byte)) 0x80 1 = (0x20, 3)" by (simp add: vint_scan.simps)
  have h3: "parse_vint [0x40, 0x05] 0 = Inr (5, 2)"
    by (simp add: parse_vint_def getitem_def vint_scan.simps)
  have h4: "(0x25 :: byte) \<noteq> 0" by simp
  have h5: "vint_scan (uint ([0x21, 0x23, 0x45 :: byte] ! 0)) 0x80 1 = (0x20, 3)"
    by (simp add: vint_scan.simps)
  have h6: "(0::nat) < length [0x21, 0x23, 0x45 :: byte] \<and> [0x21, 0x23, 0x45 :: byte] ! 0 \<noteq> 0 \<and>
     0 + 3 \<le> length [0x21, 0x23, 0x45 :: byte]" by simp
  note T = parse_vint_marker_bit [of "[0, 7]" 0 "0x25" "0x20" 3 0 "[0x21, 0x23, 0x45]" "0x20" 3
      "[0x40, 0x05]" 0 5 2]
  have c1: "parse_vint [0, 7] 0 = Inl ValueError" using T h1 by blast
  have c2: "bit (0x25 :: byte) (8 - 3) \<and> (\<forall>j. 1 \<le> j \<and> j < (3::nat) \<longrightarrow> \<not> bit (0x25 :: byte) (8 - j))"
    using T h2 h4 by blast
  then have c2': "\<not> bit (0x25 :: byte) (8 - 1)" "\<not> bit (0x25 :: byte) (8 - 2)" by simp_all
  have "parse_vint [0x21, 0x23, 0x45] 0 =
      Inr (be_val (uint ([0x21, 0x23, 0x45 :: byte] ! 0) AND (0x20 - 1))
             (take (3 - 1) (drop (0 + 1) [0x21, 0x23, 0x45])), 3)"
    using T h5 h6 by blast
  then have c3: "parse_vint [0x21, 0x23, 0x45] 0 = Inr (0x12345, 3)"
    by (simp add: be_val_def)
  have c4: "bit ([0x40, 0x05 :: byte] ! 0) (8 - 2) \<and>
      (\<forall>j. 1 \<le> j \<and> j < (2::nat) \<longrightarrow> \<not> bit ([0x40, 0x05 :: byte] ! 0) (8 - j))"
    using T h3 by blast
  then have c4': "\<not> bit ([0x40, 0x05 :: byte] ! 0) (8 - 1)" by simp
  from c1 c2 c2' c3 c4 c4' h1 h2 h3 h4 h5 show ?thesis by simp
qed

text \<open>
  C2. When the byte at \<open>offset\<close> is a valid first byte, of vint length \<open>n\<close>, and fewer
  than \<open>n\<close> bytes remain in the buffer from \<open>offset\<close>, \<open>parse_vint\<close> does not return a
  value: it raises \<open>IndexError\<close>, the out-of-range error of the subscript (the spec's
  OutOfRange). Offsets count from the start of the buffer.
\<close>

theorem parse_vint_truncated:
  assumes "offset < length data" and "data ! offset \<noteq> 0"
    and "vint_scan (uint (data ! offset)) 0x80 1 = (m, n)"
    and "length data < offset + n"
  shows "1 \<le> n \<and> n \<le> 8 \<and> parse_vint data offset = Inl IndexError"
proof -
  have n: "1 \<le> n \<and> n \<le> 8" using vint_scan_byte [OF assms(2,3)] by simp
  then have "parse_vint data offset = Inl IndexError"
    using parse_vint_first_byte [OF assms(1,3)] assms(4) by simp
  with n show ?thesis by simp
qed

theorem parse_vint_truncated_witness:
  "(1::nat) < length [0x81, 0x40 :: byte] \<and> [0x81, 0x40 :: byte] ! 1 \<noteq> 0 \<and>
   vint_scan (uint ([0x81, 0x40 :: byte] ! 1)) 0x80 1 = (0x40, 2) \<and>
   length [0x81, 0x40 :: byte] < 1 + 2 \<and> parse_vint [0x81, 0x40] 1 = Inl IndexError"
proof -
  have h: "vint_scan (uint ([0x81, 0x40 :: byte] ! 1)) 0x80 1 = (0x40, 2)"
    by (simp add: vint_scan.simps)
  have "parse_vint [0x81, 0x40] 1 = Inl IndexError"
    using parse_vint_truncated [of 1 "[0x81, 0x40]" "0x40" 2] h by simp
  with h show ?thesis by simp
qed

text \<open>
  C1, as amended. A SimpleBlock byte array that is shorter than its leading vint makes
  \<open>extract_simpleblock_data\<close> raise \<open>IndexError\<close>. One that holds the whole vint but
  fewer than \<open>n + 3\<close> bytes is not rejected: the slice for the payload starts past the
  end, and the result is the track number with an empty payload.
\<close>

theorem extract_simpleblock_data_short:
  assumes "byte_array \<noteq> []" and "hd byte_array \<noteq> 0"
    and "vint_scan (uint (hd byte_array)) 0x80 1 = (m, n)"
  shows "(length byte_array < n \<longrightarrow> extract_simpleblock_data byte_array = Inl IndexError) \<and>
         (n \<le> length byte_array \<and> length byte_array < n + 3 \<longrightarrow>
            (\<exists>track_number. parse_vint byte_array 0 = Inr (track_number, n) \<and>
               extract_simpleblock_data byte_array = Inr (track_number, [])))"
proof -
  have pos: "0 < length byte_array" using assms(1) by simp
  have hd: "byte_array ! 0 = hd byte_array" using assms(1) by (simp add: hd_conv_nth)
  have n: "1 \<le> n \<and> n \<le> 8" using vint_scan_byte [OF assms(2,3)] by simp
  have pv: "parse_vint byte_array 0 =
     (if 0 + n \<le> length byte_array
      then Inr (be_val (uint (byte_array ! 0) AND (m - 1)) (take (n - 1) (drop (0 + 1) byte_array)), n)
      else Inl IndexError)"
    using n assms(3) by (intro parse_vint_first_byte [OF pos]) (simp_all add: hd)
  show ?thesis using pv by (auto simp: extract_simpleblock_data_def)
qed

theorem extract_simpleblock_data_short_witness:
  "extract_simpleblock_data [0x40] = Inl IndexError \<and>
   parse_vint [0x40, 0x05, 0x00] 0 = Inr (5, 2) \<and>
   extract_simpleblock_data [0x40, 0x05, 0x00] = Inr (5, [])"
proof -
  have s: "vint_scan (uint (0x40 :: byte)) 0x80 1 = (0x40, 2)" by (simp add: vint_scan.simps)
  have a: "extract_simpleblock_data [0x40] = Inl IndexError"
    using extract_simpleblock_data_short [of "[0x40]" "0x40" 2] s by simp
  have "\<exists>track_number. parse_vint [0x40, 0x05, 0x00] 0 = Inr (track_number, 2) \<and>
               extract_simpleblock_data [0x40, 0x05, 0x00] = Inr (track_number, [])"
    using extract_simpleblock_data_short [of "[0x40, 0x05, 0x00]" "0x40" 2] s by simp
  moreover have "parse_vint [0x40, 0x05, 0x00] 0 = Inr (5, 2)"
    by (simp add: parse_vint_def getitem_def vint_scan.simps)
  ultimately show ?thesis using a by auto
qed

text \<open>
  The claim as first stated asks for a failure on every array shorter than \<open>n + 3\<close>
  bytes. The one-byte array 0x81 has a vint of length 1 and is decoded to track 1 with an
  empty payload.
\<close>

theorem extract_simpleblock_data_short_counterexample:
  "vint_scan (uint (hd [0x81 :: byte])) 0x80 1 = (0x80, 1) \<and> length [0x81 :: byte] < 1 + 3 \<and>
   extract_simpleblock_data [0x81] = Inr (1, [])"
  by (simp add: extract_simpleblock_data_def parse_vint_def getitem_def vint_scan.simps)

text \<open>
  C4. For a SimpleBlock byte array of at least \<open>n + 3\<close> bytes, where \<open>n\<close> is the length
  of its leading vint, \<open>extract_simpleblock_data\<close> returns the value of that vint as the
  track number together with the bytes from position \<open>n + 3\<close> on, unchanged; the two
  timestamp bytes and the flags byte are skipped. The array 81 00 00 00 AA BB gives track 1
  and the payload AA BB.
\<close>

theorem extract_simpleblock_data_payload:
  assumes "raw \<noteq> []" and "hd raw \<noteq> 0"
    and "vint_scan (uint (hd raw)) 0x80 1 = (m, n)"
    and "n + 3 \<le> length raw"
  shows "(\<exists>track_number. parse_vint raw 0 = Inr (track_number, n) \<and>
            extract_simpleblock_data raw = Inr (track_number, drop (n + 3) raw)) \<and>
         extract_simpleblock_data [0x81, 0x00, 0x00, 0x00, 0xAA, 0xBB] = Inr (1, [0xAA, 0xBB])"
proof -
  have pos: "0 < length raw" using assms(1) by simp
  have hd: "raw ! 0 = hd raw" using assms(1) by (simp add: hd_conv_nth)
  have n: "1 \<le> n \<and> n \<le> 8" using vint_scan_byte [OF assms(2,3)] by simp
  have pv: "parse_vint raw 0 =
     (if 0 + n \<le> length raw
      then Inr (be_val (uint (raw ! 0) AND (m - 1)) (take (n - 1) (drop (0 + 1) raw)), n)
      else Inl IndexError)"
    using n assms(3) by (intro parse_vint_first_byte [OF pos]) (simp_all add: hd)
  have ex: "extract_simpleblock_data [0x81, 0x00, 0x00, 0x00, 0xAA, 0xBB] = Inr (1, [0xAA, 0xBB])"
    by (simp add: extract_simpleblock_data_def parse_vint_def getitem_def vint_scan.simps)
  have "extract_simpleblock_data raw =
      Inr (be_val (uint (raw ! 0) AND (m - 1)) (take (n - 1) (drop (0 + 1) raw)), drop (n + 3) raw)"
    using pv assms(4) by (simp add: extract_simpleblock_data_def numeral_3_eq_3)
  with pv assms(4) ex show ?thesis by simp
qed

theorem extract_simpleblock_data_payload_witness:
  "parse_vint [0x40, 0x05, 0x01, 0x02, 0x03, 0xAA] 0 = Inr (5, 2) \<and>
   extract_simpleblock_data [0x40, 0x05, 0x01, 0x02, 0x03, 0xAA] = Inr (5, [0xAA])"
proof -
  have s: "vint_scan (uint (0x40 :: byte)) 0x80 1 = (0x40, 2)" by (simp add: vint_scan.simps)
  have "\<exists>track_number. parse_vint [0x40, 0x05, 0x01, 0x02, 0x03, 0xAA] 0 = Inr (track_number, 2) \<and>
     extract_simpleblock_data [0x40, 0x05, 0x01, 0x02, 0x03, 0xAA] = Inr (track_number, drop (2 + 3) [0x40, 0x05, 0x01, 0x02, 0x03, 0xAA])"
    using extract_simpleblock_data_payload [of "[0x40, 0x05, 0x01, 0x02, 0x03, 0xAA]" "0x40" 2] s by simp
  moreover have "parse_vint [0x40, 0x05, 0x01, 0x02, 0x03, 0xAA] 0 = Inr (5, 2)"
    by (simp add: parse_vint_def getitem_def vint_scan.simps)
  ultimately show ?thesis by auto
qed

section \<open>Claims about the Segment search, the tags and the clusters\<close>

lemma find_first:
  "\<forall>e\<in>set pre. \<not> P e \<Longrightarrow> P x \<Longrightarrow> find P (pre @ x # post) = Some x"
  by (induction pre) auto

lemma find_segment_first:
  "\<forall>element\<in>set pre. eid element \<noteq> 0x18538067 \<Longrightarrow> eid segment_element = 0x18538067 \<Longrightarrow>
   find_segment (pre @ segment_element # post) = Some segment_element"
  unfolding find_segment_def by (rule find_first) auto

lemma find_segment_none:
  "\<forall>element\<in>set fragment_dom. eid element \<noteq> 0x18538067 \<Longrightarrow> find_segment fragment_dom = None"
  by (simp add: find_segment_def find_None_iff)

lemma get_segment_first:
  "\<forall>element\<in>set pre. eid element \<noteq> 0x18538067 \<Longrightarrow> eid segment_element = 0x18538067 \<Longrightarrow>
   truthy segment_element \<Longrightarrow>
   get_segment truthy (pre @ segment_element # post) = Inr segment_element"
  by (simp add: get_segment_def find_segment_first)

lemma get_segment_none:
  "\<forall>element\<in>set fragment_dom. eid element \<noteq> 0x18538067 \<Longrightarrow>
   get_segment truthy fragment_dom = Inl KeyError"
  by (simp add: get_segment_def find_segment_none)

lemma simple_tag_elements_no_tags:
  "\<forall>element\<in>set (children segment_element). eid element \<noteq> 0x1254C367 \<Longrightarrow>
   simple_tag_elements segment_element = []"
  by (simp add: simple_tag_elements_def)

lemma scan_clusters_first:
  "\<forall>c\<in>set cpre. eid c \<noteq> 0x1F43B675 \<Longrightarrow> eid cl = 0x1F43B675 \<Longrightarrow>
   scan_clusters (cpre @ cl # cpost) =
     map (\<lambda>el. (payloadOffset el, esize el)) (filter (\<lambda>el. eid el = 0xA3) (children cl))"
  by (induction cpre) auto

lemma scan_clusters_none:
  "\<forall>c\<in>set cs. eid c \<noteq> 0x1F43B675 \<Longrightarrow> scan_clusters cs = []"
  by (induction cs) auto

text \<open>
  Past the guard. Without a node of the Segment ID every function raises \<open>KeyError\<close>.
  When the first node of the Segment ID is true as a Python object and has no child of
  the Tags ID, the dictionary of tags is empty.
\<close>

lemma get_fragment_tags_segment:
  "((\<forall>element\<in>set fragment_dom. eid element \<noteq> 0x18538067) \<longrightarrow>
      get_fragment_tags truthy fragment_dom = Inl KeyError) \<and>
   ((\<forall>element\<in>set pre. eid element \<noteq> 0x18538067) \<and> eid segment_element = 0x18538067 \<and>
    truthy segment_element \<and>
    (\<forall>element\<in>set (children segment_element). eid element \<noteq> 0x1254C367) \<longrightarrow>
      get_fragment_tags truthy (pre @ segment_element # post) = Inr Map.empty)"
  by (simp add: get_fragment_tags_def get_segment_none get_segment_first simple_tag_elements_no_tags)

text \<open>
  Again past the guard: only the first child of Segment with the Cluster ID is read, the
  result holds the \<open>(payloadOffset, size)\<close> of its children with the SimpleBlock ID in
  their order, whatever follows that cluster (\<open>cpost\<close> does not occur in the result), and
  without such a child the result is the empty list.
\<close>

lemma get_simple_block_offset_first_cluster:
  assumes "\<forall>element\<in>set pre. eid element \<noteq> 0x18538067"
    and "eid segment_element = 0x18538067" and "truthy segment_element"
  shows "((\<forall>c\<in>set cpre. eid c \<noteq> 0x1F43B675) \<and> eid cl = 0x1F43B675 \<and>
          children segment_element = cpre @ cl # cpost \<longrightarrow>
            get_simple_block_offset truthy (pre @ segment_element # post) =
              Inr (map (\<lambda>el. (payloadOffset el, esize el))
                     (filter (\<lambda>el. eid el = 0xA3) (children cl)))) \<and>
         ((\<forall>c\<in>set (children segment_element). eid c \<noteq> 0x1F43B675) \<longrightarrow>
            get_simple_block_offset truthy (pre @ segment_element # post) = Inr [])"
  using assms
  by (simp add: get_simple_block_offset_def get_segment_first scan_clusters_first scan_clusters_none)

text \<open>
  C6. The claim asks for \<open>KeyError\<close> when no node has the Segment ID and for the empty
  dictionary when the first Segment has no Tags child. The guard departs from it on a
  Segment without children, when the node class takes its truth value from the number of
  its children: the Segment is found and has no Tags child, yet
  \<^verbatim>\<open>if not segment_element\<close> takes it for missing and \<open>get_fragment_tags\<close> raises
  \<open>KeyError\<close>, under the message that the Segment was not found. A Segment whose only
  child is a Cluster gives the empty dictionary, as the claim says.
\<close>

theorem get_fragment_tags_empty_segment:
  "find_segment [Master 0x18538067 []] = Some (Master 0x18538067 []) \<and>
   children (Master 0x18538067 []) = [] \<and>
   get_fragment_tags sized_truthy [Master 0x18538067 []] = Inl KeyError \<and>
   get_fragment_tags sized_truthy [Master 0x18538067 [Master 0x1F43B675 []]] = Inr Map.empty"
proof -
  have "get_fragment_tags sized_truthy ([] @ Master 0x18538067 [Master 0x1F43B675 []] # []) =
      Inr Map.empty"
    using get_fragment_tags_segment [of "[]" sized_truthy "[]"
        "Master 0x18538067 [Master 0x1F43B675 []]" "[]"]
    by (simp add: Master_def sized_truthy_def)
  moreover have "get_fragment_tags sized_truthy [Master 0x18538067 []] = Inl KeyError"
    by (simp add: get_fragment_tags_def get_segment_def find_segment_def Master_def sized_truthy_def)
  ultimately show ?thesis by (simp add: find_segment_def Master_def)
qed

text \<open>
  C7. The claim asks, on every document with a Segment, for the SimpleBlocks of the first
  Cluster child only, and for the empty list, not an error, when Segment has no Cluster
  child. The same guard departs from it on a Segment without children, when the node class
  takes its truth value from the number of its children: the Segment is found and has no
  Cluster child, yet \<open>get_simple_block_offset\<close> raises \<open>KeyError\<close>. A Segment whose only
  child is a Tags node gives the empty list, as the claim says.
\<close>

theorem get_simple_block_offset_empty_segment:
  "find_segment [Master 0x18538067 []] = Some (Master 0x18538067 []) \<and>
   children (Master 0x18538067 []) = [] \<and>
   get_simple_block_offset sized_truthy [Master 0x18538067 []] = Inl KeyError \<and>
   get_simple_block_offset sized_truthy [Master 0x18538067 [Master 0x1254C367 []]] = Inr []"
  by (simp add: get_simple_block_offset_def get_segment_def find_segment_def Master_def
      sized_truthy_def)

section \<open>The track accumulators\<close>

lemma entry_step_eq:
  "entry_step (f, t) el =
     (if eid el = 0xAE
      then if entry_name el = VStr ''AUDIO_FROM_CUSTOMER'' then (entry_number el, t)
           else if entry_name el = VStr ''AUDIO_TO_CUSTOMER'' then (f, entry_number el)
           else (f, t)
      else (f, t))"
  by (simp add: entry_step_def entry_name_def entry_number_def split: prod.splits)

lemma foldl_entry_step_filter:
  "foldl entry_step acc (filter (\<lambda>el. eid el = 0xAE) es) = foldl entry_step acc es"
proof (induction es arbitrary: acc)
  case Nil
  then show ?case by simp
next
  case (Cons e es)
  obtain f t where acc: "acc = (f, t)" by (cases acc)
  show ?case
  proof (cases "eid e = 0xAE")
    case True
    then show ?thesis using Cons.IH by simp
  next
    case False
    then have "entry_step acc e = acc" by (simp add: acc entry_step_eq)
    with False show ?thesis using Cons.IH by simp
  qed
qed

lemma foldl_tracks_step:
  "foldl tracks_step acc xs =
   foldl entry_step acc (concat (map (\<lambda>element.
        if eid element = 0x1654AE6B then filter (\<lambda>el. eid el = 0xAE) (children element) else []) xs))"
  by (induction xs arbitrary: acc) (simp_all add: tracks_step_def foldl_entry_step_filter)

lemma scan_tracks_entries:
  "scan_tracks segment_element = foldl entry_step (VInt 0, VInt 0) (track_entries segment_element)"
  by (simp add: scan_tracks_def track_entries_def foldl_tracks_step)

lemma track_entries_eid: "el \<in> set (track_entries segment_element) \<Longrightarrow> eid el = 0xAE"
  by (auto simp: track_entries_def split: if_splits)

lemma from_absent:
  "\<forall>el\<in>set es. entry_name el \<noteq> VStr ''AUDIO_FROM_CUSTOMER'' \<Longrightarrow>
   fst (foldl entry_step acc es) = fst acc"
proof (induction es arbitrary: acc)
  case Nil
  then show ?case by simp
next
  case (Cons e es)
  obtain f t where acc: "acc = (f, t)" by (cases acc)
  have "fst (entry_step acc e) = fst acc" using Cons.prems by (simp add: acc entry_step_eq)
  moreover have "fst (foldl entry_step (entry_step acc e) es) = fst (entry_step acc e)"
    using Cons.prems by (intro Cons.IH) simp
  ultimately show ?case by simp
qed

lemma to_absent:
  "\<forall>el\<in>set es. entry_name el \<noteq> VStr ''AUDIO_TO_CUSTOMER'' \<Longrightarrow>
   snd (foldl entry_step acc es) = snd acc"
proof (induction es arbitrary: acc)
  case Nil
  then show ?case by simp
next
  case (Cons e es)
  obtain f t where acc: "acc = (f, t)" by (cases acc)
  have "snd (entry_step acc e) = snd acc" using Cons.prems by (simp add: acc entry_step_eq)
  moreover have "snd (foldl entry_step (entry_step acc e) es) = snd (entry_step acc e)"
    using Cons.prems by (intro Cons.IH) simp
  ultimately show ?case by simp
qed

lemma from_present:
  assumes "\<forall>el\<in>set es. eid el = 0xAE"
    and "\<exists>el\<in>set es. entry_name el = VStr ''AUDIO_FROM_CUSTOMER''"
    and "\<forall>el\<in>set es. entry_name el = VStr ''AUDIO_FROM_CUSTOMER'' \<longrightarrow> entry_number el = n"
  shows "fst (foldl entry_step acc es) = n"
  using assms
proof (induction es arbitrary: acc)
  case Nil
  then show ?case by simp
next
  case (Cons e es)
  obtain f t where acc: "acc = (f, t)" by (cases acc)
  show ?case
  proof (cases "\<exists>el\<in>set es. entry_name el = VStr ''AUDIO_FROM_CUSTOMER''")
    case True
    then have "fst (foldl entry_step (entry_step acc e) es) = n"
      using Cons.prems by (intro Cons.IH) simp_all
    then show ?thesis by simp
  next
    case False
    with Cons.prems(2) have e: "entry_name e = VStr ''AUDIO_FROM_CUSTOMER''" by auto
    with Cons.prems have "fst (entry_step acc e) = n" by (simp add: acc entry_step_eq)
    moreover have "fst (foldl entry_step (entry_step acc e) es) = fst (entry_step acc e)"
      using False by (intro from_absent) simp
    ultimately show ?thesis by simp
  qed
qed

lemma to_present:
  assumes "\<forall>el\<in>set es. eid el = 0xAE"
    and "\<exists>el\<in>set es. entry_name el = VStr ''AUDIO_TO_CUSTOMER''"
    and "\<forall>el\<in>set es. entry_name el = VStr ''AUDIO_TO_CUSTOMER'' \<longrightarrow> entry_number el = n"
  shows "snd (foldl entry_step acc es) = n"
  using assms
proof (induction es arbitrary: acc)
  case Nil
  then show ?case by simp
next
  case (Cons e es)
  obtain f t where acc: "acc = (f, t)" by (cases acc)
  show ?case
  proof (cases "\<exists>el\<in>set es. entry_name el = VStr ''AUDIO_TO_CUSTOMER''")
    case True
    then have "snd (foldl entry_step (entry_step acc e) es) = n"
      using Cons.prems by (intro Cons.IH) simp_all
    then show ?thesis by simp
  next
    case False
    with Cons.prems(2) have e: "entry_name e = VStr ''AUDIO_TO_CUSTOMER''" by auto
    with Cons.prems have "snd (entry_step acc e) = n" by (simp add: acc entry_step_eq)
    moreover have "snd (foldl entry_step (entry_step acc e) es) = snd (entry_step acc e)"
      using False by (intro to_absent) simp
    ultimately show ?thesis by simp
  qed
qed

lemma get_audio_tracks_scan:
  assumes "\<forall>element\<in>set pre. eid element \<noteq> 0x18538067"
    and "eid segment_element = 0x18538067" and "truthy segment_element"
  shows "get_audio_tracks truthy int_of_text (pre @ segment_element # post) =
     (case scan_tracks segment_element of
        (f, t) \<Rightarrow> if f = VInt 0 \<or> t = VInt 0 then Inr (1, 2)
                  else (case py_int int_of_text f of Inl e \<Rightarrow> Inl e
                        | Inr a \<Rightarrow> (case py_int int_of_text t of Inl e \<Rightarrow> Inl e
                                    | Inr b \<Rightarrow> Inr (a, b))))"
  using assms by (simp add: get_audio_tracks_def get_segment_first)

section \<open>Claims about get\_audio\_tracks\<close>

lemmas tree_defs = Master_def StrLeaf_def IntLeaf_def track_entries_def entry_name_def
  entry_number_def entry_fields_def track_step_def

text \<open>
  Past the guard. If the TrackEntry nodes under the Tracks nodes of the Segment name both
  AUDIO_FROM_CUSTOMER and AUDIO_TO_CUSTOMER, every entry named AUDIO_FROM_CUSTOMER has
  TrackNumber 1 and every entry named AUDIO_TO_CUSTOMER has TrackNumber 2, the two
  accumulators end as 1 and 2 and the result is \<open>(1, 2)\<close>. If no entry has either name,
  the accumulators stay 0 and the result is the fallback \<open>(1, 2)\<close>.
\<close>

lemma get_audio_tracks_resolve:
  assumes "\<forall>element\<in>set pre. eid element \<noteq> 0x18538067"
    and "eid segment_element = 0x18538067" and "truthy segment_element"
  shows "((\<exists>el\<in>set (track_entries segment_element). entry_name el = VStr ''AUDIO_FROM_CUSTOMER'') \<and>
          (\<exists>el\<in>set (track_entries segment_element). entry_name el = VStr ''AUDIO_TO_CUSTOMER'') \<and>
          (\<forall>el\<in>set (track_entries segment_element).
             (entry_name el = VStr ''AUDIO_FROM_CUSTOMER'' \<longrightarrow> entry_number el = VInt 1) \<and>
             (entry_name el = VStr ''AUDIO_TO_CUSTOMER'' \<longrightarrow> entry_number el = VInt 2)) \<longrightarrow>
            scan_tracks segment_element = (VInt 1, VInt 2) \<and>
            get_audio_tracks truthy int_of_text (pre @ segment_element # post) = Inr (1, 2)) \<and>
         ((\<forall>el\<in>set (track_entries segment_element).
             entry_name el \<noteq> VStr ''AUDIO_FROM_CUSTOMER'' \<and>
             entry_name el \<noteq> VStr ''AUDIO_TO_CUSTOMER'') \<longrightarrow>
            scan_tracks segment_element = (VInt 0, VInt 0) \<and>
            get_audio_tracks truthy int_of_text (pre @ segment_element # post) = Inr (1, 2))"
proof (intro conjI impI)
  let ?es = "track_entries segment_element"
  assume h: "(\<exists>el\<in>set ?es. entry_name el = VStr ''AUDIO_FROM_CUSTOMER'') \<and>
          (\<exists>el\<in>set ?es. entry_name el = VStr ''AUDIO_TO_CUSTOMER'') \<and>
          (\<forall>el\<in>set ?es.
             (entry_name el = VStr ''AUDIO_FROM_CUSTOMER'' \<longrightarrow> entry_number el = VInt 1) \<and>
             (entry_name el = VStr ''AUDIO_TO_CUSTOMER'' \<longrightarrow> entry_number el = VInt 2))"
  have ae: "\<forall>el\<in>set ?es. eid el = 0xAE" by (simp add: track_entries_eid)
  have "fst (foldl entry_step (VInt 0, VInt 0) ?es) = VInt 1"
    using ae h by (intro from_present) auto
  moreover have "snd (foldl entry_step (VInt 0, VInt 0) ?es) = VInt 2"
    using ae h by (intro to_present) auto
  ultimately show s: "scan_tracks segment_element = (VInt 1, VInt 2)"
    by (simp add: scan_tracks_entries prod_eq_iff)
  show "get_audio_tracks truthy int_of_text (pre @ segment_element # post) = Inr (1, 2)"
    by (simp add: get_audio_tracks_scan [where pre=pre and segment_element=segment_element and truthy=truthy
        and int_of_text=int_of_text and post=post, OF assms] s)
next
  let ?es = "track_entries segment_element"
  assume h: "\<forall>el\<in>set ?es. entry_name el \<noteq> VStr ''AUDIO_FROM_CUSTOMER'' \<and>
             entry_name el \<noteq> VStr ''AUDIO_TO_CUSTOMER''"
  have "fst (foldl entry_step (VInt 0, VInt 0) ?es) = fst (VInt 0, VInt 0)"
    using h by (intro from_absent) auto
  moreover have "snd (foldl entry_step (VInt 0, VInt 0) ?es) = snd (VInt 0, VInt 0)"
    using h by (intro to_absent) auto
  ultimately show s: "scan_tracks segment_element = (VInt 0, VInt 0)"
    by (simp add: scan_tracks_entries prod_eq_iff)
  show "get_audio_tracks truthy int_of_text (pre @ segment_element # post) = Inr (1, 2)"
    by (simp add: get_audio_tracks_scan [where pre=pre and segment_element=segment_element and truthy=truthy
        and int_of_text=int_of_text and post=post, OF assms] s)
qed

text \<open>
  On concrete trees: the names are read from the TrackName leaves and the numbers from the
  TrackNumber leaves, in either order; a name in another case does not match; numbers
  other than 1 and 2 are returned as they are, also when the leaves hold them as text.
\<close>

lemma get_audio_tracks_examples:
  "scan_tracks (Master 0x18538067 [Master 0x1654AE6B
      [Master 0xAE [IntLeaf 0xD7 1, StrLeaf 0x536E ''AUDIO_FROM_CUSTOMER''],
       Master 0xAE [StrLeaf 0x536E ''AUDIO_TO_CUSTOMER'', IntLeaf 0xD7 2]]]) = (VInt 1, VInt 2)"
  "get_audio_tracks sized_truthy plain_digits [Master 0x18538067 [Master 0x1654AE6B
      [Master 0xAE [IntLeaf 0xD7 1, StrLeaf 0x536E ''AUDIO_FROM_CUSTOMER''],
       Master 0xAE [StrLeaf 0x536E ''AUDIO_TO_CUSTOMER'', IntLeaf 0xD7 2]]]] = Inr (1, 2)"
  "get_audio_tracks sized_truthy plain_digits [Master 0x18538067 [Master 0x1654AE6B
      [Master 0xAE [IntLeaf 0xD7 5, StrLeaf 0x536E ''AUDIO_FROM_CUSTOMER''],
       Master 0xAE [StrLeaf 0x536E ''AUDIO_TO_CUSTOMER'', IntLeaf 0xD7 7]]]] = Inr (5, 7)"
  "scan_tracks (Master 0x18538067 [Master 0x1654AE6B
      [Master 0xAE [IntLeaf 0xD7 5, StrLeaf 0x536E ''audio_from_customer''],
       Master 0xAE [StrLeaf 0x536E ''Audio_To_Customer'', IntLeaf 0xD7 7]]]) = (VInt 0, VInt 0)"
  "get_audio_tracks sized_truthy plain_digits [Master 0x18538067 [Master 0x1654AE6B
      [Master 0xAE [StrLeaf 0xD7 ''7'', StrLeaf 0x536E ''AUDIO_FROM_CUSTOMER''],
       Master 0xAE [StrLeaf 0x536E ''AUDIO_TO_CUSTOMER'', StrLeaf 0xD7 ''8'']]]] = Inr (7, 8)"
  by (simp_all add: tree_defs scan_tracks_def tracks_step_def entry_step_def get_audio_tracks_def
      get_segment_def find_segment_def sized_truthy_def plain_digits_def)

text \<open>
  C5. The claim asks for \<open>(1, 2)\<close> when the entries map AUDIO_FROM_CUSTOMER to 1 and
  AUDIO_TO_CUSTOMER to 2, and for the fallback \<open>(1, 2)\<close>, without failing, on every tree
  in which no TrackEntry has either name. The guard departs from the second part on a
  Segment without children, when the node class takes its truth value from the number of
  its children: the Segment is found and has no TrackEntry at all, yet
  \<open>get_audio_tracks\<close> raises \<open>KeyError\<close> where the claim promises the fallback. A
  Segment whose only child is an empty Tracks node gives the fallback, as the claim says.
\<close>

theorem get_audio_tracks_empty_segment:
  "find_segment [Master 0x18538067 []] = Some (Master 0x18538067 []) \<and>
   track_entries (Master 0x18538067 []) = [] \<and>
   get_audio_tracks sized_truthy plain_digits [Master 0x18538067 []] = Inl KeyError \<and>
   get_audio_tracks sized_truthy plain_digits [Master 0x18538067 [Master 0x1654AE6B []]] =
     Inr (1, 2)"
  by (simp add: get_audio_tracks_def get_segment_def find_segment_def Master_def sized_truthy_def
      track_entries_def scan_tracks_def tracks_step_def)

text \<open>
  C9. Let the document have a Segment as above. A role without an entry of its name
  leaves its accumulator at 0. When one accumulator is not 0 and the other is 0, the track
  number that was found is dropped: \<open>get_audio_tracks\<close> returns the fallback
  \<open>(1, 2)\<close> for both roles. In the witness AUDIO_FROM_CUSTOMER is resolved to 5 and the
  result is \<open>(1, 2)\<close>.
\<close>

theorem get_audio_tracks_one_missing:
  assumes "\<forall>element\<in>set pre. eid element \<noteq> 0x18538067"
    and "eid segment_element = 0x18538067" and "truthy segment_element"
  shows "((\<forall>el\<in>set (track_entries segment_element). entry_name el \<noteq> VStr ''AUDIO_TO_CUSTOMER'') \<longrightarrow>
            snd (scan_tracks segment_element) = VInt 0) \<and>
         ((\<forall>el\<in>set (track_entries segment_element). entry_name el \<noteq> VStr ''AUDIO_FROM_CUSTOMER'') \<longrightarrow>
            fst (scan_tracks segment_element) = VInt 0) \<and>
         (fst (scan_tracks segment_element) \<noteq> VInt 0 \<and> snd (scan_tracks segment_element) = VInt 0 \<or>
          fst (scan_tracks segment_element) = VInt 0 \<and> snd (scan_tracks segment_element) \<noteq> VInt 0 \<longrightarrow>
            get_audio_tracks truthy int_of_text (pre @ segment_element # post) = Inr (1, 2))"
proof (intro conjI impI)
  assume "\<forall>el\<in>set (track_entries segment_element). entry_name el \<noteq> VStr ''AUDIO_TO_CUSTOMER''"
  then have "snd (foldl entry_step (VInt 0, VInt 0) (track_entries segment_element)) = snd (VInt 0, VInt 0)"
    by (rule to_absent)
  then show "snd (scan_tracks segment_element) = VInt 0" by (simp add: scan_tracks_entries)
next
  assume "\<forall>el\<in>set (track_entries segment_element). entry_name el \<noteq> VStr ''AUDIO_FROM_CUSTOMER''"
  then have "fst (foldl entry_step (VInt 0, VInt 0) (track_entries segment_element)) = fst (VInt 0, VInt 0)"
    by (rule from_absent)
  then show "fst (scan_tracks segment_element) = VInt 0" by (simp add: scan_tracks_entries)
next
  assume "fst (scan_tracks segment_element) \<noteq> VInt 0 \<and> snd (scan_tracks segment_element) = VInt 0 \<or>
          fst (scan_tracks segment_element) = VInt 0 \<and> snd (scan_tracks segment_element) \<noteq> VInt 0"
  then show "get_audio_tracks truthy int_of_text (pre @ segment_element # post) = Inr (1, 2)"
    by (auto simp: get_audio_tracks_scan [where pre=pre and segment_element=segment_element and truthy=truthy
        and int_of_text=int_of_text and post=post, OF assms] split: prod.splits)
qed

theorem get_audio_tracks_one_missing_witness:
  "scan_tracks (Master 0x18538067 [Master 0x1654AE6B
        [Master 0xAE [IntLeaf 0xD7 5, StrLeaf 0x536E ''AUDIO_FROM_CUSTOMER'']]]) = (VInt 5, VInt 0) \<and>
   get_audio_tracks plain_truthy plain_digits
     [Master 0x18538067 [Master 0x1654AE6B
        [Master 0xAE [IntLeaf 0xD7 5, StrLeaf 0x536E ''AUDIO_FROM_CUSTOMER'']]]] = Inr (1, 2)"
proof -
  let ?s = "Master 0x18538067 [Master 0x1654AE6B
        [Master 0xAE [IntLeaf 0xD7 5, StrLeaf 0x536E ''AUDIO_FROM_CUSTOMER'']]]"
  have s: "scan_tracks ?s = (VInt 5, VInt 0)"
    by (simp add: tree_defs scan_tracks_def tracks_step_def entry_step_def)
  have "get_audio_tracks plain_truthy plain_digits ([] @ ?s # []) = Inr (1, 2)"
    using get_audio_tracks_one_missing [where pre="[]" and segment_element="?s"
        and truthy=plain_truthy and int_of_text=plain_digits and post="[]"] s
    by (simp add: Master_def plain_truthy_def)
  with s show ?thesis by simp
qed

section \<open>Claims about the tag dictionary\<close>

lemma add_tag_dom:
  "k \<in> dom (add_tag d simple_tag) \<Longrightarrow> k \<in> dom d \<or> val_truthy k"
  by (auto simp: add_tag_def split: prod.splits option.splits if_splits)

lemma foldl_add_tag_dom:
  "k \<in> dom (foldl add_tag d sts) \<Longrightarrow> k \<in> dom d \<or> val_truthy k"
proof (induction sts arbitrary: d)
  case Nil
  then show ?case by simp
next
  case (Cons st sts)
  then have "k \<in> dom (add_tag d st) \<or> val_truthy k" by simp
  then show ?case using add_tag_dom by blast
qed

lemma add_tag_unnamed:
  "fst (tag_fields simple_tag) = None \<or> fst (tag_fields simple_tag) = Some (VStr []) \<Longrightarrow>
   add_tag d simple_tag = d"
  by (auto simp: add_tag_def split: prod.splits option.splits)

text \<open>
  C10. Every key of the dictionary that \<open>get_fragment_tags\<close> returns is a tag name that
  is true as a Python value; in particular the empty string is never a key. A SimpleTag
  whose TagName leaf holds the empty string is skipped just as one without a TagName leaf:
  it leaves the dictionary as it was, and the result is that of the SimpleTag list without
  it.
\<close>

theorem get_fragment_tags_keys:
  "(get_fragment_tags truthy fragment_dom = Inr simple_tags_dict \<longrightarrow>
      VStr [] \<notin> dom simple_tags_dict \<and> (\<forall>k\<in>dom simple_tags_dict. val_truthy k)) \<and>
   (fst (tag_fields simple_tag) = Some (VStr []) \<or> fst (tag_fields simple_tag) = None \<longrightarrow>
      add_tag d simple_tag = d \<and>
      foldl add_tag d (xs @ simple_tag # ys) = foldl add_tag d (xs @ ys))"
proof (intro conjI impI ballI)
  assume r: "get_fragment_tags truthy fragment_dom = Inr simple_tags_dict"
  then obtain seg where "simple_tags_dict = foldl add_tag Map.empty (simple_tag_elements seg)"
    by (auto simp: get_fragment_tags_def split: sum.splits)
  then have keys: "\<And>k. k \<in> dom simple_tags_dict \<Longrightarrow> val_truthy k"
    using foldl_add_tag_dom [of _ Map.empty] by auto
  show "VStr [] \<notin> dom simple_tags_dict" using keys [of "VStr []"] by auto
  fix k assume "k \<in> dom simple_tags_dict"
  then show "val_truthy k" by (rule keys)
next
  assume "fst (tag_fields simple_tag) = Some (VStr []) \<or> fst (tag_fields simple_tag) = None"
  then show "add_tag d simple_tag = d" using add_tag_unnamed by blast
next
  assume "fst (tag_fields simple_tag) = Some (VStr []) \<or> fst (tag_fields simple_tag) = None"
  then have "\<And>d'. add_tag d' simple_tag = d'" using add_tag_unnamed by blast
  then show "foldl add_tag d (xs @ simple_tag # ys) = foldl add_tag d (xs @ ys)" by simp
qed

theorem get_fragment_tags_keys_witness:
  "(\<exists>m. get_fragment_tags plain_truthy
      [Master 0x18538067 [Master 0x1254C367 [Master 0x7373
         [Master 0x67C8 [StrLeaf 0x45A3 ''k'', StrLeaf 0x4487 ''v''],
          Master 0x67C8 [StrLeaf 0x45A3 [], StrLeaf 0x4487 ''w'']]]]] = Inr m \<and>
      m (VStr ''k'') = Some (Some (VStr ''v'')) \<and> VStr [] \<notin> dom m) \<and>
   foldl add_tag Map.empty
     [Master 0x67C8 [StrLeaf 0x45A3 ''k'', StrLeaf 0x4487 ''v''],
      Master 0x67C8 [StrLeaf 0x45A3 [], StrLeaf 0x4487 ''w'']] =
   foldl add_tag Map.empty [Master 0x67C8 [StrLeaf 0x45A3 ''k'', StrLeaf 0x4487 ''v'']]"
proof -
  let ?t1 = "Master 0x67C8 [StrLeaf 0x45A3 ''k'', StrLeaf 0x4487 ''v'']"
  let ?t2 = "Master 0x67C8 [StrLeaf 0x45A3 [], StrLeaf 0x4487 ''w'']"
  let ?dom = "[Master 0x18538067 [Master 0x1254C367 [Master 0x7373 [?t1, ?t2]]]]"
  let ?m = "foldl add_tag Map.empty [?t1, ?t2]"
  have r: "get_fragment_tags plain_truthy ?dom = Inr ?m"
    by (simp add: Master_def get_fragment_tags_def get_segment_def find_segment_def
        simple_tag_elements_def plain_truthy_def)
  have n: "fst (tag_fields ?t2) = Some (VStr [])"
    by (simp add: Master_def StrLeaf_def tag_fields_def tag_step_def)
  have k: "VStr [] \<notin> dom ?m"
    using get_fragment_tags_keys [of plain_truthy ?dom ?m ?t2 Map.empty "[?t1]" "[]"] r by blast
  have e: "foldl add_tag Map.empty ([?t1] @ ?t2 # []) = foldl add_tag Map.empty ([?t1] @ [])"
    using get_fragment_tags_keys [of plain_truthy ?dom ?m ?t2 Map.empty "[?t1]" "[]"] n by blast
  have v: "?m (VStr ''k'') = Some (Some (VStr ''v''))"
    by (simp add: Master_def StrLeaf_def add_tag_def tag_fields_def tag_step_def)
  from r k e v show ?thesis by auto
qed

section \<open>The round trip of a vint\<close>

lemma length_be_bytes: "length (be_bytes n v) = n"
  by (induction n arbitrary: v) simp_all

lemma be_bytes_front: "be_bytes (Suc n) v = word_of_int (v div 2 ^ (8 * n)) # be_bytes n v"
proof (induction n arbitrary: v)
  case 0
  then show ?case by simp
next
  case (Suc n)
  have "v div 256 div 2 ^ (8 * n) = v div 2 ^ (8 * Suc n)"
  proof -
    have "v div 2 ^ 8 div 2 ^ (8 * n) = v div 2 ^ (8 + 8 * n)" by (rule div_exp_eq)
    then show ?thesis by simp
  qed
  then have "be_bytes (Suc n) (v div 256) = word_of_int (v div 2 ^ (8 * Suc n)) # be_bytes n (v div 256)"
    using Suc.IH [of "v div 256"] by simp
  then show ?case by simp
qed

lemma push_or_byte: "push_bit 8 a OR uint (b :: byte) = a * 256 + uint b"
proof -
  have "push_bit 8 a AND uint b = 0"
    by (rule bit_eqI) (auto simp: bit_and_iff bit_push_bit_iff bit_uint_iff)
  then have "push_bit 8 a + uint b = push_bit 8 a OR uint b" by (rule disjunctive_add_eq_or)
  then show ?thesis by (simp add: push_bit_eq_mult)
qed

lemma be_val_snoc: "be_val acc (bs @ [b]) = be_val acc bs * 256 + uint b"
  by (simp add: be_val_def push_or_byte)

lemma uint_byte_of_int: "uint (word_of_int v :: byte) = v mod 256"
  by (simp add: uint_word_of_int take_bit_eq_mod)

lemma be_val_be_bytes: "be_val acc (be_bytes n v) = acc * 2 ^ (8 * n) + v mod 2 ^ (8 * n)"
proof (induction n arbitrary: v)
  case 0
  then show ?case by (simp add: be_val_def)
next
  case (Suc n)
  have split: "v mod (256 * 2 ^ (8 * n)) = 256 * (v div 256 mod 2 ^ (8 * n)) + v mod 256"
    by (rule zmod_zmult2_eq) simp
  have "be_val acc (be_bytes (Suc n) v) =
        (acc * 2 ^ (8 * n) + v div 256 mod 2 ^ (8 * n)) * 256 + v mod 256"
    by (simp add: be_val_snoc Suc.IH uint_byte_of_int)
  also have "\<dots> = acc * (256 * 2 ^ (8 * n)) + (256 * (v div 256 mod 2 ^ (8 * n)) + v mod 256)"
    by (simp add: algebra_simps)
  also have "\<dots> = acc * (256 * 2 ^ (8 * n)) + v mod (256 * 2 ^ (8 * n))"
    by (simp only: split)
  finally show ?case by (simp add: power_add)
qed

lemma int_div_less:
  assumes "v < a * b" "0 < b"
  shows "v div b < (a::int)"
proof (rule ccontr)
  assume "\<not> v div b < a"
  then have "a \<le> v div b" by simp
  then have "a * b \<le> v div b * b" using assms(2) by (simp add: mult_right_mono)
  moreover have "v div b * b + v mod b = v" by simp
  moreover have "0 \<le> v mod b" using assms(2) by simp
  ultimately have "a * b \<le> v" by linarith
  with assms(1) show False by simp
qed

lemma vint_scan_marker:
  assumes "1 \<le> len" "len \<le> 8" "0 \<le> h" "h < 2 ^ (8 - len)"
  shows "vint_scan (2 ^ (8 - len) + h) 0x80 1 = (2 ^ (8 - len), len)"
proof -
  let ?fb = "(2::int) ^ (8 - len) + h"
  obtain m s where ms: "vint_scan ?fb 0x80 1 = (m, s)" by (cases "vint_scan ?fb 0x80 1")
  have P: "1 \<le> s \<and> s \<le> 9 \<and> m = (if s \<le> 8 then 2 ^ (8 - s) else 0) \<and> (s \<le> 8 \<longrightarrow> bit ?fb (8 - s)) \<and>
     (\<forall>j. 1 \<le> j \<and> j < s \<longrightarrow> \<not> bit ?fb (8 - j))"
    using vint_scan_props [OF ms] by simp
  have "?fb div 2 ^ (8 - len) = 1 + h div 2 ^ (8 - len)" by (simp add: div_add_self1)
  also have "h div 2 ^ (8 - len) = 0" using assms(3,4) by simp
  finally have set: "bit ?fb (8 - len)" by (simp add: bit_int_def)
  have le: "s \<le> len"
  proof (rule ccontr)
    assume "\<not> s \<le> len"
    then have "1 \<le> len \<and> len < s" using assms(1) by simp
    with P have "\<not> bit ?fb (8 - len)" by blast
    with set show False by simp
  qed
  have ge: "len \<le> s"
  proof (rule ccontr)
    assume "\<not> len \<le> s"
    then have lt: "s < len" by simp
    then have "s \<le> 8" using assms(2) by simp
    with P have b: "bit ?fb (8 - s)" by simp
    have "Suc (8 - len) \<le> 8 - s" using lt assms(2) by arith
    then have "(2::int) ^ Suc (8 - len) \<le> 2 ^ (8 - s)" by (rule power_increasing) simp
    moreover have "?fb < 2 ^ Suc (8 - len)" using assms(4) by simp
    ultimately have "?fb < 2 ^ (8 - s)" by simp
    moreover have "0 \<le> ?fb" using assms(3) by simp
    ultimately have "?fb div 2 ^ (8 - s) = 0" by simp
    then have "\<not> bit ?fb (8 - s)" by (simp add: bit_int_def)
    with b show False by simp
  qed
  from le ge have "s = len" by simp
  with P assms(2) ms show ?thesis by simp
qed

lemma marker_low_bits:
  assumes "0 \<le> h" "h < 2 ^ k"
  shows "(2 ^ k + h) AND (2 ^ k - 1) = (h::int)"
proof -
  have "(2 ^ k + h) AND (2 ^ k - 1) = take_bit k (2 ^ k + h)"
    by (simp add: take_bit_eq_mask mask_eq_exp_minus_1)
  also have "\<dots> = (2 ^ k + h) mod 2 ^ k" by (simp add: take_bit_eq_mod)
  also have "\<dots> = h" using assms by simp
  finally show ?thesis .
qed

lemma parse_vint_encode_vint_append:
  assumes "1 \<le> len" "len \<le> 8" "0 \<le> v" "v < 2 ^ (7 * len)"
  shows "parse_vint (encode_vint len v @ rest) 0 = Inr (v, len)"
proof -
  obtain n where len: "len = Suc n" using assms(1) by (cases len) auto
  let ?x = "(2::int) ^ (7 * len) + v"
  let ?h = "v div 2 ^ (8 * n)"
  let ?data = "encode_vint len v @ rest"
  have exp: "7 * len = (8 - len) + 8 * n" using assms(2) len by arith
  have pw: "(2::int) ^ (7 * len) = 2 ^ (8 - len) * 2 ^ (8 * n)"
    by (simp only: exp power_add)
  have h0: "0 \<le> ?h" using assms(3) by (simp add: pos_imp_zdiv_nonneg_iff)
  have h1: "?h < 2 ^ (8 - len)"
  proof -
    have "v < 2 ^ (8 - len) * 2 ^ (8 * n)" using assms(4) pw by simp
    then show ?thesis by (rule int_div_less) simp
  qed
  have xdiv: "?x div 2 ^ (8 * n) = 2 ^ (8 - len) + ?h"
    by (simp add: pw)
  have "be_bytes len ?x = word_of_int (?x div 2 ^ (8 * n)) # be_bytes n ?x"
    using be_bytes_front [of n ?x] by (simp only: len)
  then have enc: "encode_vint len v = word_of_int (2 ^ (8 - len) + ?h) # be_bytes n ?x"
    by (simp only: encode_vint_def xdiv)
  have small: "2 ^ (8 - len) + ?h < 256"
  proof -
    have "(2::int) ^ (8 - len) + ?h < 2 ^ Suc (8 - len)" using h1 by simp
    also have "(2::int) ^ Suc (8 - len) \<le> 2 ^ 8" using assms(1) by (intro power_increasing) auto
    finally show ?thesis by simp
  qed
  have "?data ! 0 = word_of_int (2 ^ (8 - len) + ?h)"
    by (simp only: enc append_Cons nth_Cons_0)
  then have "uint (?data ! 0) = (2 ^ (8 - len) + ?h) mod 256"
    by (simp only: uint_byte_of_int)
  moreover have "0 \<le> 2 ^ (8 - len) + ?h" using h0 by simp
  ultimately have fb: "uint (?data ! 0) = 2 ^ (8 - len) + ?h"
    using small by simp
  have scan: "vint_scan (uint (?data ! 0)) 0x80 1 = (2 ^ (8 - len), len)"
    unfolding fb using assms(1,2) h0 h1 by (rule vint_scan_marker)
  have lenc: "length (encode_vint len v) = len"
    by (simp add: encode_vint_def length_be_bytes)
  have pos: "0 < length ?data" using lenc assms(1) by simp
  have ln: "0 + len \<le> length ?data" using lenc by simp
  have n: "len - 1 = n" using len by simp
  have tl: "take (len - 1) (drop (0 + 1) ?data) = be_bytes n ?x"
    unfolding n by (simp add: enc length_be_bytes)
  have acc0: "uint (?data ! 0) AND (2 ^ (8 - len) - 1) = ?h"
    unfolding fb using h0 h1 by (rule marker_low_bits)
  have xmod: "?x mod 2 ^ (8 * n) = v mod 2 ^ (8 * n)" by (simp add: pw)
  have val: "be_val ?h (be_bytes n ?x) = v"
    by (simp only: be_val_be_bytes xmod div_mult_mod_eq)
  show ?thesis
    using parse_vint_first_byte [OF pos scan assms(2)] ln
    by (simp only: tl acc0 val if_True)
qed

text \<open>
  C3. Round trip. For every length \<open>len\<close> from 1 to 8 and every value \<open>v\<close> that fits
  the \<open>7 * len\<close> value bits of a vint of that length, \<open>parse_vint\<close> at offset 0 of the
  encoding returns exactly \<open>(v, len)\<close>. The byte 81 is the one-byte vint of 1 and decodes
  to \<open>(1, 1)\<close>; the bytes 40 05 are the two-byte vint of 5 and decode to \<open>(5, 2)\<close>.
\<close>

theorem parse_vint_round_trip:
  "(1 \<le> len \<and> len \<le> 8 \<and> 0 \<le> v \<and> v < 2 ^ (7 * len) \<longrightarrow>
      parse_vint (encode_vint len v) 0 = Inr (v, len)) \<and>
   encode_vint 1 1 = [0x81] \<and> parse_vint [0x81] 0 = Inr (1, 1) \<and>
   encode_vint 2 5 = [0x40, 0x05] \<and> parse_vint [0x40, 0x05] 0 = Inr (5, 2)"
proof -
  have "1 \<le> len \<and> len \<le> 8 \<and> 0 \<le> v \<and> v < 2 ^ (7 * len) \<longrightarrow>
      parse_vint (encode_vint len v) 0 = Inr (v, len)"
    using parse_vint_encode_vint_append [of len v "[]"] by simp
  moreover have "encode_vint 1 1 = [0x81]" "encode_vint 2 5 = [0x40, 0x05]"
    by code_simp+
  moreover have "parse_vint [0x81] 0 = Inr (1, 1)" "parse_vint [0x40, 0x05] 0 = Inr (5, 2)"
    by (simp_all add: parse_vint_def getitem_def vint_scan.simps)
  ultimately show ?thesis by simp
qed

theorem parse_vint_round_trip_witness:
  "encode_vint 3 0x12345 = [0x21, 0x23, 0x45] \<and> parse_vint [0x21, 0x23, 0x45] 0 = Inr (0x12345, 3)"
proof -
  have e: "encode_vint 3 0x12345 = [0x21, 0x23, 0x45]"
    by code_simp
  have "parse_vint (encode_vint 3 0x12345) 0 = Inr (0x12345, 3)"
    using parse_vint_round_trip [of 3 "0x12345"] by simp
  with e show ?thesis by simp
qed

end
